theory Spec2Isabelle
  imports Complex_Main "HOL-Library.Word" "HOL-Library.Log_Nat"
begin

unbundle bit_operations_syntax

section \<open>JavaScript values\<close>

text \<open>
  The errors the code throws: \<open>TypeError\<close> and \<open>RangeError\<close> (of \<open>calculateIntSize\<close>,
  of \<open>encodeTypeInfoStruct\<close> and of the Buffer methods), and the plain errors
  \<open>Error('Unsupported type')\<close> of \<open>encodeType\<close>, \<open>Error('Unsupported size. ...')\<close> of
  \<open>encodeInt\<close> and \<open>decodeInt\<close>, \<open>Error('Unsupported float size: ...')\<close> of
  \<open>encodeFloatStruct\<close>.
\<close>

datatype error = TypeError | RangeError | UnsupportedType | UnsupportedSize | UnsupportedFloatSize

text \<open>
  A JavaScript \<open>number\<close>: a finite value (kept as the exact rational it denotes, \<open>Finite 0\<close>
  being positive zero), negative zero, the two infinities and NaN.
\<close>

datatype number = Finite rat | NegZero | PosInf | NegInf | NaN

type_synonym byte = "8 word"

text \<open>
  The values a caller can hand to the component, by the tests the code applies to them
  (\<open>=== null\<close>, \<open>typeof\<close>, \<open>instanceof Date\<close>, \<open>Buffer.isBuffer\<close>,
  \<open>Array.isArray\<close>, \<open>instanceof Set\<close>). A string is its list of UTF-16 code units, a
  \<open>Date\<close> its time value in milliseconds, a plain object its list of properties.
\<close>

datatype jsval =
    JNull
  | JUndefined
  | JBool bool
  | JNumber number
  | JBigInt int
  | JString "nat list"
  | JSymbol
  | JFunction
  | JDate number
  | JBuffer "byte list"
  | JArray "jsval list"
  | JSet "jsval list"
  | JObject "(nat list \<times> jsval) list"

text \<open>The type \<open>number | bigint\<close> of the integer helpers.\<close>

datatype numeric = Num number | Big int

section \<open>Operations on numbers\<close>

fun is_finite :: "number \<Rightarrow> bool" where
  "is_finite (Finite q) = True"
| "is_finite NegZero = True"
| "is_finite x = False"

text \<open>The mathematical value of a finite number.\<close>

fun num_val :: "number \<Rightarrow> rat" where
  "num_val (Finite q) = q"
| "num_val x = 0"

text \<open>
  The comparisons \<open>x < c\<close> and \<open>x > c\<close> with a numeric literal \<open>c\<close>: both are false of
  NaN, and negative zero compares as zero.
\<close>

fun num_lt :: "number \<Rightarrow> rat \<Rightarrow> bool" where
  "num_lt (Finite q) c = (q < c)"
| "num_lt NegZero c = (0 < c)"
| "num_lt NegInf c = True"
| "num_lt PosInf c = False"
| "num_lt NaN c = False"

fun num_gt :: "number \<Rightarrow> rat \<Rightarrow> bool" where
  "num_gt (Finite q) c = (c < q)"
| "num_gt NegZero c = (c < 0)"
| "num_gt NegInf c = False"
| "num_gt PosInf c = True"
| "num_gt NaN c = False"

text \<open>\<open>x === y\<close> on numbers: NaN equals nothing, and the two zeros are equal.\<close>

definition strict_eq :: "number \<Rightarrow> number \<Rightarrow> bool" where
  "strict_eq x y =
     (x \<noteq> NaN \<and> y \<noteq> NaN \<and> (x = y \<or> (is_finite x \<and> is_finite y \<and> num_val x = num_val y)))"

text \<open>
  The integer part of a number, rounding towards zero; 0 for NaN, for negative zero and
  (as the conversions to 8 and 32 bits have it) for the infinities.
\<close>

fun ToIntegral :: "number \<Rightarrow> int" where
  "ToIntegral (Finite q) = (if q < 0 then - \<lfloor>- q\<rfloor> else \<lfloor>q\<rfloor>)"
| "ToIntegral x = 0"

text \<open>The signed 32-bit integer congruent to an integer.\<close>

definition int32 :: "int \<Rightarrow> int" where
  "int32 n = (let m = n mod 2 ^ 32 in if 2 ^ 31 \<le> m then m - 2 ^ 32 else m)"

definition ToInt32 :: "number \<Rightarrow> int" where
  "ToInt32 x = int32 (ToIntegral x)"

text \<open>\<open>x << k\<close> for a literal shift count \<open>k\<close> below 32.\<close>

definition shift_left :: "number \<Rightarrow> nat \<Rightarrow> int" where
  "shift_left x k = int32 (ToInt32 x * 2 ^ k)"

text \<open>The byte stored when a number is written into a \<open>Uint8Array\<close> or a Buffer.\<close>

definition ToUint8 :: "number \<Rightarrow> byte" where
  "ToUint8 x = word_of_int (ToIntegral x)"

text \<open>\<open>BigInt(x)\<close> for a number: a RangeError unless the number is an integer.\<close>

fun BigInt_number :: "number \<Rightarrow> error + int" where
  "BigInt_number (Finite q) = (if rat_of_int \<lfloor>q\<rfloor> = q then Inr \<lfloor>q\<rfloor> else Inl RangeError)"
| "BigInt_number NegZero = Inr 0"
| "BigInt_number x = Inl RangeError"

section \<open>IEEE-754 binary formats\<close>

text \<open>
  What the runtime does when a number is stored in a \<open>Float32Array\<close> or written by
  \<open>writeFloatBE\<close> and \<open>writeDoubleBE\<close>. A binary format is given by its precision \<open>p\<close>
  (significand bits, the hidden one included) and the width \<open>w\<close> of its exponent field:
  binary32 is \<open>p = 24\<close>, \<open>w = 8\<close> and binary64 is \<open>p = 53\<close>, \<open>w = 11\<close>. The largest
  exponent equals the bias, the smallest is \<open>1 - bias\<close>.
\<close>

definition bias :: "nat \<Rightarrow> int" where
  "bias w = 2 ^ (w - 1) - 1"

text \<open>Rounding to the nearest integer, a tie going to the even neighbour.\<close>

definition round_even :: "rat \<Rightarrow> int" where
  "round_even y =
     (let t = \<lfloor>y\<rfloor>; r = y - rat_of_int t
      in if r < 1 / 2 then t else if 1 / 2 < r then t + 1 else if even t then t else t + 1)"

text \<open>
  The binary exponent of a positive rational \<open>a\<close>: the \<open>k\<close> with
  \<open>2^k \<le> a < 2^(k+1)\<close>. It is one of the two candidates that the bit lengths of the
  numerator and the denominator leave.
\<close>

definition ilog2 :: "rat \<Rightarrow> int" where
  "ilog2 a =
     (let (n, d) = quotient_of a; k = bitlen n - bitlen d
      in if 2 powi k \<le> a then k else k - 1)"

text \<open>
  Conversion of a number to the format \<open>(p, w)\<close> with the default rounding (to nearest,
  ties to even): the significand is rounded at the position the exponent gives (at the
  smallest exponent for a subnormal result), a result beyond the largest finite value
  becomes an infinity, and a negative value that rounds to nothing becomes negative zero.
\<close>

definition ieee_round :: "nat \<Rightarrow> nat \<Rightarrow> number \<Rightarrow> number" where
  "ieee_round p w x =
     (case x of
        Finite v \<Rightarrow>
          if v = 0 then Finite 0
          else
            let a = \<bar>v\<bar>;
                e = max (ilog2 a) (1 - bias w);
                q = e - int p + 1;
                r = rat_of_int (round_even (a / 2 powi q)) * 2 powi q
            in if 2 powi (bias w + 1) \<le> r then (if v < 0 then NegInf else PosInf)
               else if r = 0 then (if v < 0 then NegZero else Finite 0)
               else Finite (if v < 0 then - r else r)
      | _ \<Rightarrow> x)"

text \<open>
  The bit pattern of a value of the format \<open>(p, w)\<close>, as an unsigned integer: sign bit,
  biased exponent, fraction. NaN is written as the quiet NaN \<open>7FC00000\<close>,
  \<open>7FF8000000000000\<close>.
\<close>

definition ieee_bits :: "nat \<Rightarrow> nat \<Rightarrow> number \<Rightarrow> int" where
  "ieee_bits p w x =
     (case x of
        NaN \<Rightarrow> (2 ^ w - 1) * 2 ^ (p - 1) + 2 ^ (p - 2)
      | PosInf \<Rightarrow> (2 ^ w - 1) * 2 ^ (p - 1)
      | NegInf \<Rightarrow> 2 ^ (w + p - 1) + (2 ^ w - 1) * 2 ^ (p - 1)
      | NegZero \<Rightarrow> 2 ^ (w + p - 1)
      | Finite v \<Rightarrow>
          if v = 0 then 0
          else
            let a = \<bar>v\<bar>;
                e = max (ilog2 a) (1 - bias w);
                m = \<lfloor>a / 2 powi (e - int p + 1)\<rfloor>;
                s = (if v < 0 then 2 ^ (w + p - 1) else 0)
            in if m < 2 ^ (p - 1) then s + m
               else s + (e + bias w) * 2 ^ (p - 1) + (m - 2 ^ (p - 1)))"

text \<open>The number that a bit pattern of the format \<open>(p, w)\<close> denotes.\<close>

definition ieee_value :: "nat \<Rightarrow> nat \<Rightarrow> int \<Rightarrow> number" where
  "ieee_value p w bits =
     (let neg = (bits div 2 ^ (w + p - 1) mod 2 = 1);
          ex = bits div 2 ^ (p - 1) mod 2 ^ w;
          f = bits mod 2 ^ (p - 1)
      in if ex = 2 ^ w - 1 then (if f \<noteq> 0 then NaN else if neg then NegInf else PosInf)
         else
           let m = (if ex = 0 then f else 2 ^ (p - 1) + f);
               e = (if ex = 0 then 1 else ex) - bias w - int (p - 1);
               v = rat_of_int m * 2 powi e
           in if v = 0 then (if neg then NegZero else Finite 0)
              else Finite (if neg then - v else v))"

definition toFloat32 :: "number \<Rightarrow> number" where
  "toFloat32 = ieee_round 24 8"

definition toFloat64 :: "number \<Rightarrow> number" where
  "toFloat64 = ieee_round 53 11"

subsection \<open>Arithmetic\<close>

fun num_neg :: "number \<Rightarrow> number" where
  "num_neg (Finite q) = (if q = 0 then NegZero else Finite (- q))"
| "num_neg NegZero = Finite 0"
| "num_neg PosInf = NegInf"
| "num_neg NegInf = PosInf"
| "num_neg NaN = NaN"

text \<open>\<open>x + y\<close> and \<open>x - y\<close>: the exact sum, rounded to binary64.\<close>

definition num_add :: "number \<Rightarrow> number \<Rightarrow> number" where
  "num_add x y =
     (if x = NaN \<or> y = NaN then NaN
      else if x = PosInf then (if y = NegInf then NaN else PosInf)
      else if x = NegInf then (if y = PosInf then NaN else NegInf)
      else if y = PosInf \<or> y = NegInf then y
      else if x = NegZero \<and> y = NegZero then NegZero
      else toFloat64 (Finite (num_val x + num_val y)))"

definition num_sub :: "number \<Rightarrow> number \<Rightarrow> number" where
  "num_sub x y = num_add x (num_neg y)"

text \<open>\<open>x * c\<close> and \<open>x / c\<close> for a positive numeric literal \<open>c\<close>.\<close>

fun num_times :: "number \<Rightarrow> rat \<Rightarrow> number" where
  "num_times (Finite q) c = toFloat64 (Finite (q * c))"
| "num_times x c = x"

fun num_over :: "number \<Rightarrow> rat \<Rightarrow> number" where
  "num_over (Finite q) c = toFloat64 (Finite (q / c))"
| "num_over x c = x"

section \<open>Buffer methods\<close>

text \<open>
  The \<open>w\<close> low-order bytes of an integer, most significant first. Division on \<open>int\<close>
  rounds down, so a negative integer yields its two's-complement bytes.
\<close>

fun be_bytes :: "nat \<Rightarrow> int \<Rightarrow> byte list" where
  "be_bytes 0 n = []"
| "be_bytes (Suc w) n = be_bytes w (n div 256) @ [word_of_int n]"

text \<open>The unsigned and the signed value of a byte sequence, most significant byte first.\<close>

definition be_uint :: "byte list \<Rightarrow> int" where
  "be_uint bs = foldl (\<lambda>acc b. acc * 256 + uint b) 0 bs"

definition be_sint :: "byte list \<Rightarrow> int" where
  "be_sint bs =
     (let u = be_uint bs
      in if 2 ^ (8 * length bs - 1) \<le> u then u - 2 ^ (8 * length bs) else u)"

text \<open>
  \<open>writeInt8\<close>, \<open>writeInt16BE\<close> and \<open>writeInt32BE\<close> (\<open>w\<close> = 1, 2, 4) at offset 0 of a
  buffer of \<open>w\<close> bytes: a value above the largest or below the least integer of the width
  is refused with \<open>ERR_OUT_OF_RANGE\<close>, a RangeError; otherwise the bytes of the integer part
  are stored. NaN passes the comparison and is stored as zeros.
\<close>

definition writeIntBE :: "nat \<Rightarrow> number \<Rightarrow> error + byte list" where
  "writeIntBE w v =
     (if num_gt v (2 ^ (8 * w - 1) - 1) \<or> num_lt v (- (2 ^ (8 * w - 1))) then Inl RangeError
      else Inr (be_bytes w (ToIntegral v)))"

text \<open>\<open>writeBigInt64BE\<close> at offset 0 of a buffer of 8 bytes.\<close>

definition writeBigInt64BE :: "int \<Rightarrow> error + byte list" where
  "writeBigInt64BE n =
     (if n > 0x7FFFFFFFFFFFFFFF \<or> n < - 0x8000000000000000 then Inl RangeError
      else Inr (be_bytes 8 n))"

text \<open>
  \<open>readInt8\<close>, \<open>readInt16BE\<close>, \<open>readInt32BE\<close> and \<open>readBigInt64BE\<close> (\<open>w\<close> = 1, 2, 4, 8)
  at offset 0: a RangeError when the buffer is shorter than \<open>w\<close> bytes.
\<close>

definition readIntBE :: "nat \<Rightarrow> byte list \<Rightarrow> error + int" where
  "readIntBE w buffer =
     (if length buffer < w then Inl RangeError else Inr (be_sint (take w buffer)))"

text \<open>\<open>writeFloatBE\<close> and \<open>writeDoubleBE\<close>: the four respectively eight bytes of the number.\<close>

definition binary32_be :: "number \<Rightarrow> byte list" where
  "binary32_be x = be_bytes 4 (ieee_bits 24 8 (toFloat32 x))"

definition binary64_be :: "number \<Rightarrow> byte list" where
  "binary64_be x = be_bytes 8 (ieee_bits 53 11 (toFloat64 x))"

text \<open>\<open>readDoubleBE\<close>: a RangeError unless eight bytes lie at the offset.\<close>

definition readDoubleBE :: "byte list \<Rightarrow> int \<Rightarrow> error + number" where
  "readDoubleBE buffer offset =
     (if offset < 0 \<or> int (length buffer) < offset + 8 then Inl RangeError
      else Inr (ieee_value 53 11 (be_uint (take 8 (drop (nat offset) buffer)))))"

section \<open>The struct helpers\<close>

text \<open>
  The functions of \<open>structs/binary.struct\<close> that the component imports, and their
  decoding counterparts.
\<close>

subsection \<open>isFloatPrecision\<close>

text \<open>
  \<open>float32[0] = value\<close> stores the value as a binary32 number, and reading \<open>float32[0]\<close>
  gives that number back; the result is \<open>value === float32[0]\<close>.
\<close>

definition isFloatPrecision :: "number \<Rightarrow> bool" where
  "isFloatPrecision value = (let float32 = toFloat32 value in strict_eq value float32)"

subsection \<open>The tag byte\<close>

definition encodeTypeInfoStruct :: "number \<Rightarrow> number \<Rightarrow> error + number" where
  "encodeTypeInfoStruct type info =
     (if num_lt type 0 \<or> num_gt type 15 \<or> num_lt info 0 \<or> num_gt info 15
      then Inl RangeError
      else Inr (Finite (rat_of_int (shift_left type 4 OR ToInt32 info))))"


subsection \<open>Integers\<close>

text \<open>\<open>Number(value)\<close>: a bigint becomes the nearest double.\<close>

fun Number :: "numeric \<Rightarrow> number" where
  "Number (Num x) = x"
| "Number (Big n) = toFloat64 (Finite (rat_of_int n))"

text \<open>
  \<open>encodeInt\<close>. \<open>Buffer.alloc(size)\<close> comes first and refuses a negative size with a
  RangeError; the methods then write at offset 0 of a buffer of exactly \<open>size\<close> bytes.
\<close>

definition encodeInt :: "numeric \<Rightarrow> int \<Rightarrow> error + byte list" where
  "encodeInt v sz =
     (if sz < 0 then Inl RangeError
      else if sz = 1 then writeIntBE 1 (Number v)
      else if sz = 2 then writeIntBE 2 (Number v)
      else if sz = 4 then writeIntBE 4 (Number v)
      else if sz = 8 then
        (case v of
           Big n \<Rightarrow> writeBigInt64BE n
         | Num x \<Rightarrow> (case BigInt_number x of Inl e \<Rightarrow> Inl e | Inr n \<Rightarrow> writeBigInt64BE n))
      else Inl UnsupportedSize)"

text \<open>
  \<open>decodeInt\<close>: a number for the sizes 1, 2 and 4, a bigint for the size 8.
\<close>

definition decodeInt :: "byte list \<Rightarrow> int \<Rightarrow> error + numeric" where
  "decodeInt buffer sz =
     (if sz = 1 then
        (case readIntBE 1 buffer of Inl e \<Rightarrow> Inl e | Inr n \<Rightarrow> Inr (Num (Finite (rat_of_int n))))
      else if sz = 2 then
        (case readIntBE 2 buffer of Inl e \<Rightarrow> Inl e | Inr n \<Rightarrow> Inr (Num (Finite (rat_of_int n))))
      else if sz = 4 then
        (case readIntBE 4 buffer of Inl e \<Rightarrow> Inl e | Inr n \<Rightarrow> Inr (Num (Finite (rat_of_int n))))
      else if sz = 8 then
        (case readIntBE 8 buffer of Inl e \<Rightarrow> Inl e | Inr n \<Rightarrow> Inr (Big n))
      else Inl UnsupportedSize)"

subsection \<open>Floats\<close>

definition encodeFloatStruct :: "number \<Rightarrow> int \<Rightarrow> error + byte list" where
  "encodeFloatStruct v sz =
     (if sz < 0 then Inl RangeError
      else if sz = 4 then Inr (binary32_be v)
      else if sz = 8 then Inr (binary64_be v)
      else Inl UnsupportedFloatSize)"

subsection \<open>Dates\<close>

text \<open>\<open>REFERENCE_DATE = Date.UTC(2001, 0, 1)\<close>, in milliseconds since 1970.\<close>

definition REFERENCE_DATE :: int where
  "REFERENCE_DATE = 978307200000"

text \<open>
  \<open>encodeDateStruct\<close>, on the time value of the date (NaN for an invalid date): nine
  bytes, the tag written by \<open>writeInt8\<close> at offset 0 and the delta in seconds written by
  \<open>writeDoubleBE\<close> at offset 1.
\<close>

definition encodeDateStruct :: "number \<Rightarrow> error + byte list" where
  "encodeDateStruct date =
     (let baseDate = Finite (rat_of_int REFERENCE_DATE);
          deltaTime = num_sub date baseDate
      in case encodeTypeInfoStruct (Finite 0x3) (Finite 0x3) of
           Inl e \<Rightarrow> Inl e
         | Inr tag \<Rightarrow>
             (case writeIntBE 1 tag of
                Inl e \<Rightarrow> Inl e
              | Inr b \<Rightarrow> Inr (b @ binary64_be (num_over deltaTime 1000))))"

text \<open>
  The time functions of ECMAScript on an integral time value: the day number and the
  hour, minute, second and millisecond within the day.
\<close>

definition msPerDay :: int where "msPerDay = 86400000"
definition msPerHour :: int where "msPerHour = 3600000"
definition msPerMinute :: int where "msPerMinute = 60000"
definition msPerSecond :: int where "msPerSecond = 1000"

definition Day :: "int \<Rightarrow> int" where "Day t = t div msPerDay"
definition HourFromTime :: "int \<Rightarrow> int" where "HourFromTime t = t div msPerHour mod 24"
definition MinFromTime :: "int \<Rightarrow> int" where "MinFromTime t = t div msPerMinute mod 60"
definition SecFromTime :: "int \<Rightarrow> int" where "SecFromTime t = t div msPerSecond mod 60"
definition msFromTime :: "int \<Rightarrow> int" where "msFromTime t = t mod msPerSecond"

text \<open>
  \<open>MakeTime\<close>: NaN unless the seconds are finite; the seconds lose their fraction
  (\<open>ToIntegerOrInfinity\<close>) before they are added up.
\<close>

definition MakeTime :: "int \<Rightarrow> int \<Rightarrow> number \<Rightarrow> int \<Rightarrow> number" where
  "MakeTime hour minute sec ms =
     (if \<not> is_finite sec then NaN
      else
        let s = ToIntegral sec
        in num_add
             (num_add (Finite (rat_of_int (hour * msPerHour + minute * msPerMinute)))
                (num_times (Finite (rat_of_int s)) (rat_of_int msPerSecond)))
             (Finite (rat_of_int ms)))"

definition MakeDate :: "int \<Rightarrow> number \<Rightarrow> number" where
  "MakeDate day time =
     (if \<not> is_finite time then NaN
      else
        let tv = num_add (Finite (rat_of_int (day * msPerDay))) time
        in if \<not> is_finite tv then NaN else tv)"

definition TimeClip :: "number \<Rightarrow> number" where
  "TimeClip time =
     (if \<not> is_finite time then NaN
      else if 8640000000000000 < \<bar>num_val time\<bar> then NaN
      else Finite (rat_of_int (ToIntegral time)))"

text \<open>
  The local time zone is a parameter \<open>tza\<close>: the offset of local time from UTC in
  milliseconds, at a time value given in UTC (\<open>True\<close>) or in local time (\<open>False\<close>).
  \<open>setSeconds\<close> works on the local time of the date.
\<close>

definition UTC :: "(int \<Rightarrow> bool \<Rightarrow> int) \<Rightarrow> number \<Rightarrow> number" where
  "UTC tza t =
     (if \<not> is_finite t then NaN
      else num_sub t (Finite (rat_of_int (tza \<lfloor>num_val t\<rfloor> False))))"

definition setSeconds :: "(int \<Rightarrow> bool \<Rightarrow> int) \<Rightarrow> int \<Rightarrow> number \<Rightarrow> number" where
  "setSeconds tza t sec =
     (let local = t + tza t True;
          milli = msFromTime local;
          date = MakeDate (Day local)
                   (MakeTime (HourFromTime local) (MinFromTime local) sec milli)
      in TimeClip (UTC tza date))"

text \<open>
  \<open>decodeDateStruct\<close>: the double at \<open>offset + 1\<close>, then \<open>setSeconds\<close> on the reference
  date with the double less the seconds of the reference date; the result is the time
  value of the date returned.
\<close>

definition decodeDateStruct ::
    "(int \<Rightarrow> bool \<Rightarrow> int) \<Rightarrow> byte list \<Rightarrow> int \<Rightarrow> error + number" where
  "decodeDateStruct tza buffer offset =
     (case readDoubleBE buffer (offset + 1) of
        Inl e \<Rightarrow> Inl e
      | Inr dateDouble \<Rightarrow>
          Inr (setSeconds tza REFERENCE_DATE
                 (num_sub dateDouble (Finite (rat_of_int (SecFromTime REFERENCE_DATE))))))"

section \<open>The component\<close>

subsection \<open>calculateIntSize\<close>

text \<open>\<open>typeof value === 'bigint'\<close>.\<close>

fun is_bigint :: "jsval \<Rightarrow> bool" where
  "is_bigint (JBigInt n) = True"
| "is_bigint v = False"

text \<open>\<open>Number.isInteger\<close>: false for everything that is not a finite integral number.\<close>

fun Number_isInteger :: "jsval \<Rightarrow> bool" where
  "Number_isInteger (JNumber (Finite q)) = (rat_of_int \<lfloor>q\<rfloor> = q)"
| "Number_isInteger (JNumber NegZero) = True"
| "Number_isInteger v = False"

text \<open>
  \<open>BigInt(value)\<close>, used only after the guard of \<open>calculateIntSize\<close> has let the value
  through: a bigint is itself, an integral number is that integer.
\<close>

fun BigInt :: "jsval \<Rightarrow> int" where
  "BigInt (JBigInt n) = n"
| "BigInt (JNumber (Finite q)) = \<lfloor>q\<rfloor>"
| "BigInt v = 0"

definition calculateIntSize :: "jsval \<Rightarrow> error + int" where
  "calculateIntSize value =
     (if \<not> is_bigint value \<and> \<not> Number_isInteger value then Inl TypeError
      else
        let number = BigInt value;
            absValue = (if number < 0 then - number else number)
        in if absValue > 0x7FFFFFFFFFFFFFFF then Inl RangeError
           else if absValue \<le> 0x7F then Inr 1
           else if absValue \<le> 0x7FFF then Inr 2
           else if absValue \<le> 0x7FFFFFFF then Inr 4
           else Inr 8)"

subsection \<open>encodeType\<close>

text \<open>
  \<open>Math.round(Math.sqrt(size - 1))\<close>. \<open>Math.sqrt\<close> is correctly rounded and
  \<open>Math.round\<close> rounds a half up, as \<^const>\<open>round\<close> does; at the sizes the function
  meets (1, 2, 4 and 8) the root is 0, 1, 1.73.. and 2.64.., far from a half.
\<close>

definition info_of_size :: "int \<Rightarrow> int" where
  "info_of_size sz = round (sqrt (real_of_int (sz - 1)))"

text \<open>
  \<open>encodeType\<close>, branch by branch in the order of the source. The Date branch returns
  what the Date encoder returns as it is; the encoder is a parameter \<open>dateStruct\<close>, so
  that what is proved of the other branches holds whatever bytes it produces
  (\<open>encodeDateStruct\<close> never throws and produces nine). \<open>Buffer.from([ type, ...encode ])\<close>
  stores the tag as a byte.
\<close>

fun encodeType :: "(number \<Rightarrow> byte list) \<Rightarrow> jsval \<Rightarrow> error + byte list" where
  "encodeType dateStruct JNull = Inr [0x00]"
| "encodeType dateStruct (JBool False) = Inr [0x08]"
| "encodeType dateStruct (JBool True) = Inr [0x09]"
| "encodeType dateStruct (JNumber x) =
     (if Number_isInteger (JNumber x) then
        (case calculateIntSize (JNumber x) of
           Inl e \<Rightarrow> Inl e
         | Inr sz \<Rightarrow>
             (case encodeTypeInfoStruct (Finite 0x1) (Finite (rat_of_int (info_of_size sz))) of
                Inl e \<Rightarrow> Inl e
              | Inr tag \<Rightarrow>
                  (case encodeInt (Num x) sz of
                     Inl e \<Rightarrow> Inl e
                   | Inr encode \<Rightarrow> Inr (ToUint8 tag # encode))))
      else
        (let sz = (if isFloatPrecision x then 4 else 8)
         in case encodeTypeInfoStruct (Finite 0x2) (Finite (rat_of_int (info_of_size sz))) of
              Inl e \<Rightarrow> Inl e
            | Inr tag \<Rightarrow>
                (case encodeFloatStruct x sz of
                   Inl e \<Rightarrow> Inl e
                 | Inr encode \<Rightarrow> Inr (ToUint8 tag # encode))))"
| "encodeType dateStruct (JDate t) = Inr (dateStruct t)"
| "encodeType dateStruct (JBuffer b) = Inr []"
| "encodeType dateStruct (JString s) =
     (if list_all (\<lambda>c. c \<le> 0x7F) s then Inr [] else Inr [])"
| "encodeType dateStruct (JArray xs) = Inr []"
| "encodeType dateStruct (JSet xs) = Inr []"
| "encodeType dateStruct (JObject ps) = Inr []"
| "encodeType dateStruct v = Inl UnsupportedType"

subsection \<open>encodeBinary\<close>

text \<open>
  \<open>encodeBinary\<close> prints its argument and returns \<open>Buffer.alloc(0)\<close>.
\<close>

definition encodeBinary :: "jsval \<Rightarrow> byte list" where
  "encodeBinary data = []"

text \<open>
  Modelled from the spec: the header of a file image, which no code under the component
  builds, is fixed at 8 bytes, the 6-byte magic \<open>bplist\<close> and the 2-byte version
  \<open>00\<close> (the fields of \<open>headerStruct\<close>).
\<close>

definition bplist_header :: "byte list" where
  "bplist_header = [0x62, 0x70, 0x6C, 0x69, 0x73, 0x74, 0x30, 0x30]"

section \<open>Properties of the binary formats\<close>

text \<open>
  The model of the formats is checked against what the standard demands of it: the binary
  exponent brackets the value, rounding moves a value by at most half a unit, a value of a
  format is left as it is by the conversion to that format and to every wider one, and the
  conversion yields values of the format only.
\<close>

lemma bitlen_powi_bounds:
  assumes "0 < n"
  shows "2 powi (bitlen n - 1) \<le> rat_of_int n" and "rat_of_int n < 2 powi bitlen n"
proof -
  from assms have b1: "1 \<le> bitlen n"
    by (auto simp: bitlen_alt_def)
  from bitlen_bounds [OF assms]
  have lo: "2 ^ nat (bitlen n - 1) \<le> n" and hi: "n < 2 ^ nat (bitlen n)"
    by simp_all
  from lo have "rat_of_int (2 ^ nat (bitlen n - 1)) \<le> rat_of_int n"
    by (simp only: of_int_le_iff)
  then show "2 powi (bitlen n - 1) \<le> rat_of_int n"
    using b1 by (simp add: power_int_nonneg_exp)
  from hi have "rat_of_int n < rat_of_int (2 ^ nat (bitlen n))"
    by (simp only: of_int_less_iff)
  then show "rat_of_int n < 2 powi bitlen n"
    using b1 by (simp add: power_int_nonneg_exp)
qed

lemma ilog2_bounds:
  assumes "0 < a"
  shows "2 powi ilog2 a \<le> a \<and> a < 2 powi (ilog2 a + 1)"
proof -
  obtain n d where qd: "quotient_of a = (n, d)"
    by (cases "quotient_of a")
  then have d: "0 < d" and a: "a = rat_of_int n / rat_of_int d"
    by (simp_all add: quotient_of_denom_pos quotient_of_div)
  with assms have n: "0 < n"
    by (simp add: zero_less_divide_iff)
  define k where "k = bitlen n - bitlen d"
  have dpos: "0 < rat_of_int d"
    using d by simp
  have "a * rat_of_int d = rat_of_int n"
    using d a by simp
  have up: "a < 2 powi (k + 1)"
  proof -
    have "rat_of_int n < 2 powi bitlen n"
      by (rule bitlen_powi_bounds [OF n])
    also have "\<dots> = 2 powi (k + 1) * 2 powi (bitlen d - 1)"
      by (simp add: k_def flip: power_int_add)
    also have "\<dots> \<le> 2 powi (k + 1) * rat_of_int d"
      by (intro mult_left_mono bitlen_powi_bounds [OF d]) simp
    finally show ?thesis
      using dpos by (simp add: a pos_divide_less_eq)
  qed
  have low: "2 powi (k - 1) \<le> a"
  proof -
    have "2 powi (k - 1) * rat_of_int d \<le> 2 powi (k - 1) * 2 powi bitlen d"
      by (intro mult_left_mono less_imp_le bitlen_powi_bounds [OF d]) simp
    also have "\<dots> = 2 powi (bitlen n - 1)"
      by (simp add: k_def flip: power_int_add)
    also have "\<dots> \<le> rat_of_int n"
      by (rule bitlen_powi_bounds [OF n])
    finally show ?thesis
      using dpos by (simp add: a pos_le_divide_eq)
  qed
  show ?thesis
  proof (cases "2 powi k \<le> a")
    case True
    then have "ilog2 a = k"
      by (simp add: ilog2_def qd k_def)
    with True up show ?thesis
      by simp
  next
    case False
    then have "ilog2 a = k - 1"
      by (simp add: ilog2_def qd k_def)
    with False low show ?thesis
      by simp
  qed
qed

lemma round_even_of_int [simp]: "round_even (rat_of_int z) = z"
  by (simp add: round_even_def)

lemma powi_less_imp_less:
  assumes "(2::rat) powi m < 2 powi n"
  shows "m < n"
proof (rule ccontr)
  assume "\<not> m < n"
  then have "(2::rat) powi n \<le> 2 powi m"
    by (intro power_int_increasing) simp_all
  with assms show False
    by simp
qed

text \<open>A value \<open>m * 2 ^ e\<close> within the precision and the exponent range is a fixed point.\<close>

lemma ieee_round_representable:
  assumes q: "q = rat_of_int m * 2 powi e"
    and m: "\<bar>m\<bar> < 2 ^ p"
    and e: "2 - bias w - int p \<le> e"
    and fin: "\<bar>q\<bar> < 2 powi (bias w + 1)"
  shows "ieee_round p w (Finite q) = Finite q"
proof (cases "q = 0")
  case True
  then show ?thesis
    by (simp add: ieee_round_def)
next
  case False
  define a where "a = \<bar>q\<bar>"
  define ex where "ex = max (ilog2 a) (1 - bias w)"
  define qe where "qe = ex - int p + 1"
  have apos: "0 < a"
    using False by (simp add: a_def)
  have am: "a = rat_of_int \<bar>m\<bar> * 2 powi e"
    by (simp add: a_def q abs_mult power_int_abs)
  have "qe \<le> e"
  proof (cases "ilog2 a \<le> 1 - bias w")
    case True
    then show ?thesis
      using e by (simp add: qe_def ex_def)
  next
    case False
    have "2 powi ilog2 a \<le> a"
      using ilog2_bounds [OF apos] by simp
    also have "a < rat_of_int (2 ^ p) * 2 powi e"
      unfolding am using m by (intro mult_strict_right_mono) (simp_all only: of_int_less_iff zero_less_power_int zero_less_numeral)
    also have "\<dots> = 2 powi (int p + e)"
      by (simp add: power_int_add)
    finally have "ilog2 a < int p + e"
      by (rule powi_less_imp_less)
    with False show ?thesis
      by (simp add: qe_def ex_def)
  qed
  then have pw: "(2::rat) powi e / 2 powi qe = 2 ^ nat (e - qe)"
    by (simp add: power_int_nonneg_exp flip: power_int_diff)
  define z where "z = \<bar>m\<bar> * 2 ^ nat (e - qe)"
  have "a / 2 powi qe = rat_of_int \<bar>m\<bar> * (2 powi e / 2 powi qe)"
    by (simp add: am)
  also have "\<dots> = rat_of_int \<bar>m\<bar> * 2 ^ nat (e - qe)"
    by (simp only: pw)
  also have "\<dots> = rat_of_int z"
    by (simp add: z_def)
  finally have az: "a / 2 powi qe = rat_of_int z" .
  have "rat_of_int (round_even (a / 2 powi qe)) * 2 powi qe = a / 2 powi qe * 2 powi qe"
    by (simp only: az round_even_of_int)
  then have r: "rat_of_int (round_even (a / 2 powi qe)) * 2 powi qe = a"
    by simp
  have "\<not> 2 powi (bias w + 1) \<le> a"
    using fin by (simp add: a_def)
  with r False show ?thesis
    by (simp add: ieee_round_def Let_def flip: a_def ex_def qe_def) (simp add: a_def)
qed

lemma round_even_nearest: "\<bar>rat_of_int (round_even y) - y\<bar> \<le> 1 / 2"
proof -
  define r where "r = y - rat_of_int \<lfloor>y\<rfloor>"
  have r: "0 \<le> r" "r < 1"
    unfolding r_def by linarith+
  have y: "y = rat_of_int \<lfloor>y\<rfloor> + r"
    by (simp add: r_def)
  have "round_even y = (if r < 1 / 2 then \<lfloor>y\<rfloor> else if 1 / 2 < r then \<lfloor>y\<rfloor> + 1
      else if even \<lfloor>y\<rfloor> then \<lfloor>y\<rfloor> else \<lfloor>y\<rfloor> + 1)"
    by (simp add: round_even_def Let_def r_def)
  then have "rat_of_int (round_even y) - y = - r \<or> rat_of_int (round_even y) - y = 1 - r"
    and "r < 1 / 2 \<longrightarrow> rat_of_int (round_even y) - y = - r"
    and "1 / 2 < r \<longrightarrow> rat_of_int (round_even y) - y = 1 - r"
    using y by (auto split: if_splits)
  with r show ?thesis
    by (cases "r < 1 / 2"; cases "1 / 2 < r") (auto simp add: abs_if)
qed

lemma round_even_bounds: "\<lfloor>y\<rfloor> \<le> round_even y \<and> round_even y \<le> \<lfloor>y\<rfloor> + 1"
  by (simp add: round_even_def Let_def)

text \<open>A finite result is an integer significand of at most \<open>p\<close> bits at an exponent of the format.\<close>

lemma ieee_round_finite_form:
  assumes "ieee_round p w (Finite q) = Finite r"
  shows "\<exists>m e. r = rat_of_int m * 2 powi e \<and> \<bar>m\<bar> \<le> 2 ^ p \<and> 2 - bias w - int p \<le> e
           \<and> \<bar>r\<bar> < 2 powi (bias w + 1)"
proof (cases "q = 0")
  case True
  with assms have "r = 0"
    by (simp add: ieee_round_def)
  then have "r = rat_of_int 0 * 2 powi (2 - bias w - int p) \<and> \<bar>0::int\<bar> \<le> 2 ^ p
      \<and> 2 - bias w - int p \<le> 2 - bias w - int p \<and> \<bar>r\<bar> < 2 powi (bias w + 1)"
    by simp
  then show ?thesis
    by blast
next
  case False
  define a where "a = \<bar>q\<bar>"
  define ex where "ex = max (ilog2 a) (1 - bias w)"
  define qe where "qe = ex - int p + 1"
  define M where "M = round_even (a / 2 powi qe)"
  define s where "s = rat_of_int M * 2 powi qe"
  have apos: "0 < a"
    using False by (simp add: a_def)
  from assms False have fin: "\<not> 2 powi (bias w + 1) \<le> s" and r: "r = (if q < 0 then - s else s)"
    by (simp_all add: ieee_round_def Let_def s_def M_def qe_def ex_def a_def split: if_splits)
  have "a < 2 powi (ilog2 a + 1)"
    using ilog2_bounds [OF apos] by simp
  also have "\<dots> \<le> 2 powi (ex + 1)"
    by (intro power_int_increasing) (simp_all add: ex_def)
  also have "\<dots> = 2 ^ p * 2 powi qe"
    by (simp add: qe_def power_int_add power_int_diff)
  finally have "a / 2 powi qe < 2 ^ p"
    by (simp add: pos_divide_less_eq)
  then have "a / 2 powi qe < rat_of_int (2 ^ p)"
    by simp
  then have "\<lfloor>a / 2 powi qe\<rfloor> < 2 ^ p"
    by (simp only: floor_less_iff)
  moreover have "0 \<le> \<lfloor>a / 2 powi qe\<rfloor>"
    using apos by simp
  ultimately have M: "0 \<le> M" "M \<le> 2 ^ p"
    using round_even_bounds [of "a / 2 powi qe"] unfolding M_def by linarith+
  then have spos: "0 \<le> s"
    by (simp add: s_def)
  define m where "m = (if q < 0 then - M else M)"
  have "r = rat_of_int m * 2 powi qe"
    by (simp add: r m_def s_def)
  moreover have "\<bar>m\<bar> \<le> 2 ^ p"
    using M by (simp add: m_def)
  moreover have "2 - bias w - int p \<le> qe"
    by (simp add: qe_def ex_def)
  moreover have "\<bar>r\<bar> < 2 powi (bias w + 1)"
    using fin spos by (simp add: r)
  ultimately show ?thesis
    by blast
qed

lemma ieee_round_result_representable:
  assumes p: "0 < p" and "ieee_round p w (Finite q) = Finite r"
  shows "\<exists>m e. r = rat_of_int m * 2 powi e \<and> \<bar>m\<bar> < 2 ^ p \<and> 2 - bias w - int p \<le> e
           \<and> \<bar>r\<bar> < 2 powi (bias w + 1)"
proof -
  from ieee_round_finite_form [OF assms(2)]
  obtain m e where r: "r = rat_of_int m * 2 powi e" and m: "\<bar>m\<bar> \<le> 2 ^ p"
    and e: "2 - bias w - int p \<le> e" and fin: "\<bar>r\<bar> < 2 powi (bias w + 1)"
    by blast
  show ?thesis
  proof (cases "\<bar>m\<bar> = 2 ^ p")
    case False
    with m have "\<bar>m\<bar> < 2 ^ p"
      by simp
    with r e fin show ?thesis
      by blast
  next
    case True
    define m1 :: int where "m1 = (if m < 0 then - 1 else 1)"
    have "m = m1 * 2 ^ p"
      using True by (auto simp add: m1_def abs_if split: if_splits)
    then have "r = rat_of_int m1 * 2 powi (int p + e)"
      by (simp add: r power_int_add)
    moreover have "\<bar>m1\<bar> < 2 ^ p"
      using p by (simp add: m1_def)
    moreover have "2 - bias w - int p \<le> int p + e"
      using e by simp
    ultimately show ?thesis
      using fin by blast
  qed
qed

lemma bias_mono: "w \<le> w' \<Longrightarrow> bias w \<le> bias w'"
proof -
  assume "w \<le> w'"
  then have "(2::int) ^ (w - 1) \<le> 2 ^ (w' - 1)"
    by (intro power_increasing) simp_all
  then show ?thesis
    unfolding bias_def by linarith
qed

lemma ieee_round_widen:
  assumes r: "r = rat_of_int m * 2 powi e" and m: "\<bar>m\<bar> < 2 ^ p"
    and e: "2 - bias w - int p \<le> e" and fin: "\<bar>r\<bar> < 2 powi (bias w + 1)"
    and p': "p \<le> p'" and w': "w \<le> w'"
  shows "ieee_round p' w' (Finite r) = Finite r"
proof (rule ieee_round_representable [OF r])
  have "(2::int) ^ p \<le> 2 ^ p'"
    using p' by (intro power_increasing) simp_all
  with m show "\<bar>m\<bar> < 2 ^ p'"
    by linarith
  from bias_mono [OF w'] e p' show "2 - bias w' - int p' \<le> e"
    by simp
  have "(2::rat) powi (bias w + 1) \<le> 2 powi (bias w' + 1)"
    using bias_mono [OF w'] by (intro power_int_increasing) simp_all
  with fin show "\<bar>r\<bar> < 2 powi (bias w' + 1)"
    by simp
qed

lemma ieee_round_special [simp]:
  "ieee_round p w NegZero = NegZero" "ieee_round p w PosInf = PosInf"
  "ieee_round p w NegInf = NegInf" "ieee_round p w NaN = NaN"
  "ieee_round p w (Finite 0) = Finite 0"
  by (simp_all add: ieee_round_def)

lemma ieee_round_not_NaN: "ieee_round p w (Finite q) \<noteq> NaN"
  by (simp add: ieee_round_def Let_def)

lemma ieee_round_NegZero: "ieee_round p w (Finite q) = NegZero \<Longrightarrow> q \<noteq> 0"
  by (auto simp add: ieee_round_def)

section \<open>Properties of isFloatPrecision\<close>

text \<open>
  The function compares with \<open>===\<close>, which NaN fails against itself; everywhere else the
  comparison is the identity of the value with its binary32 conversion.
\<close>

text \<open>Reading a binary32 value as a double changes nothing.\<close>

lemma toFloat64_toFloat32: "toFloat64 (toFloat32 x) = toFloat32 x"
proof (cases x)
  case (Finite q)
  show ?thesis
  proof (cases "toFloat32 x")
    case (Finite r)
    then have "ieee_round 24 8 (Finite q) = Finite r"
      using \<open>x = Finite q\<close> by (simp add: toFloat32_def)
    from ieee_round_result_representable [OF _ this]
    obtain m e where "r = rat_of_int m * 2 powi e" "\<bar>m\<bar> < 2 ^ 24"
        "2 - bias 8 - int 24 \<le> e" "\<bar>r\<bar> < 2 powi (bias 8 + 1)"
      by auto
    then have "ieee_round 53 11 (Finite r) = Finite r"
      by (intro ieee_round_widen [of r m e 24 8]) simp_all
    with Finite show ?thesis
      by (simp add: toFloat64_def)
  qed (simp_all add: toFloat64_def)
qed (simp_all add: toFloat32_def toFloat64_def)

lemma strict_eq_toFloat32: "strict_eq x (toFloat32 x) \<longleftrightarrow> x \<noteq> NaN \<and> toFloat32 x = x"
proof (cases x)
  case (Finite q)
  show ?thesis
  proof (cases "toFloat32 x")
    case NegZero
    then have "q \<noteq> 0"
      using Finite ieee_round_NegZero [of 24 8 q] by (simp add: toFloat32_def)
    with Finite NegZero show ?thesis
      by (simp add: strict_eq_def)
  qed (use Finite in \<open>auto simp add: strict_eq_def\<close>)
qed (simp_all add: toFloat32_def strict_eq_def)

text \<open>
  C5. The claim is that \<open>isFloatPrecision\<close> holds of a value if and only if converting
  it to a 32-bit float and back yields a bit-identical value, and that it holds of 1.5 and
  fails of 0.1. NaN comes back from the conversion as NaN, yet the function returns false
  for it. Amended: \<open>isFloatPrecision\<close> holds of a value if and only if the value is not
  NaN and converting it to a 32-bit float and back yields the same value; it holds of 1.5
  and fails of 0.1 (the doubles that these literals denote).
\<close>

theorem isFloatPrecision_float32_round_trip:
  "(isFloatPrecision x \<longleftrightarrow> x \<noteq> NaN \<and> toFloat64 (toFloat32 x) = x)
   \<and> isFloatPrecision (toFloat64 (Finite (3 / 2)))
   \<and> \<not> isFloatPrecision (toFloat64 (Finite (1 / 10)))"
proof -
  have "isFloatPrecision (toFloat64 (Finite (3 / 2)))"
    by code_simp
  moreover have "\<not> isFloatPrecision (toFloat64 (Finite (1 / 10)))"
    by code_simp
  moreover have "isFloatPrecision x \<longleftrightarrow> x \<noteq> NaN \<and> toFloat64 (toFloat32 x) = x"
    by (simp add: isFloatPrecision_def strict_eq_toFloat32 toFloat64_toFloat32)
  ultimately show ?thesis
    by blast
qed

text \<open>
  The claim as it stands fails at NaN: the function returns false, and NaN converted to a
  32-bit float and back is NaN.
\<close>

theorem isFloatPrecision_NaN_counterexample:
  "\<not> (isFloatPrecision NaN \<longleftrightarrow> toFloat64 (toFloat32 NaN) = NaN)"
  by (simp add: isFloatPrecision_def strict_eq_def toFloat32_def toFloat64_def)

text \<open>
  \<open>isFloatPrecision\<close> holds of a finite number exactly when the number is a binary32
  value: a significand below \<open>2 ^ 24\<close> in magnitude at an exponent of at least \<open>-149\<close>,
  below \<open>2 ^ 128\<close> in magnitude.
\<close>

lemma isFloatPrecision_iff_binary32:
  "isFloatPrecision (Finite q) \<longleftrightarrow>
     (\<exists>m e. q = rat_of_int m * 2 powi e \<and> \<bar>m\<bar> < 2 ^ 24 \<and> - 149 \<le> e \<and> \<bar>q\<bar> < 2 powi 128)"
proof
  assume "isFloatPrecision (Finite q)"
  then have "ieee_round 24 8 (Finite q) = Finite q"
    by (simp add: isFloatPrecision_def strict_eq_toFloat32) (simp add: toFloat32_def)
  from ieee_round_result_representable [OF _ this]
  show "\<exists>m e. q = rat_of_int m * 2 powi e \<and> \<bar>m\<bar> < 2 ^ 24 \<and> - 149 \<le> e
      \<and> \<bar>q\<bar> < 2 powi 128"
    by (auto simp add: bias_def)
next
  assume "\<exists>m e. q = rat_of_int m * 2 powi e \<and> \<bar>m\<bar> < 2 ^ 24 \<and> - 149 \<le> e \<and> \<bar>q\<bar> < 2 powi 128"
  then obtain m e where rep: "q = rat_of_int m * 2 powi e" "\<bar>m\<bar> < 2 ^ 24"
      "2 - bias 8 - int 24 \<le> e" "\<bar>q\<bar> < 2 powi (bias 8 + 1)"
    by (auto simp add: bias_def)
  then have "ieee_round 24 8 (Finite q) = Finite q"
    by (intro ieee_round_representable [of q m e])
  then show "isFloatPrecision (Finite q)"
    by (simp add: isFloatPrecision_def strict_eq_toFloat32) (simp add: toFloat32_def)
qed

section \<open>Properties of the tag byte\<close>

lemma nibbles_or:
  assumes "0 \<le> i" and "i \<le> 15"
  shows "push_bit 4 t OR i = 16 * t + (i::int)"
proof -
  have low: "take_bit 4 i = i"
    using assms by (simp add: take_bit_int_eq_self)
  then have "push_bit 4 t OR i = concat_bit 4 i t"
    by (simp add: concat_bit_def or.commute)
  also have "\<dots> = take_bit 4 i + push_bit 4 t"
    by (rule concat_bit_eq)
  finally show ?thesis
    using low by (simp add: push_bit_eq_mult)
qed

lemma int32_small: "- (2 ^ 31) \<le> n \<Longrightarrow> n < 2 ^ 31 \<Longrightarrow> int32 n = n"
proof -
  assume lo: "- (2 ^ 31) \<le> n" and hi: "n < 2 ^ 31"
  show ?thesis
  proof (cases "0 \<le> n")
    case True
    with hi have "n mod 2 ^ 32 = n"
      by simp
    with hi show ?thesis
      by (simp add: int32_def)
  next
    case False
    with lo have "(n + 2 ^ 32) mod 2 ^ 32 = n + 2 ^ 32"
      by (intro mod_pos_pos_trivial) simp_all
    then have "n mod 2 ^ 32 = n + 2 ^ 32"
      by simp
    with lo show ?thesis
      by (simp add: int32_def)
  qed
qed



lemma pack_nibbles:
  assumes t: "0 \<le> ToIntegral t" "ToIntegral t \<le> 15"
    and i: "0 \<le> ToIntegral i" "ToIntegral i \<le> 15"
  shows "shift_left t 4 OR ToInt32 i = 16 * ToIntegral t + ToIntegral i"
proof -
  have "ToInt32 t = ToIntegral t" and "ToInt32 i = ToIntegral i"
    using t i by (simp_all add: ToInt32_def int32_small)
  moreover have "int32 (ToIntegral t * 2 ^ 4) = ToIntegral t * 16"
    using t by (intro int32_small [THEN trans]) simp_all
  moreover have "ToIntegral t * 16 OR ToIntegral i = push_bit 4 (ToIntegral t) OR ToIntegral i"
    by (simp add: push_bit_eq_mult)
  ultimately show ?thesis
    using i by (simp add: shift_left_def nibbles_or del: push_bit_eq_mult)
qed



lemma encodeTypeInfoStruct_nibbles:
  assumes "0 \<le> t" "t \<le> 15" "0 \<le> i" "i \<le> 15"
  shows "encodeTypeInfoStruct (Finite (rat_of_int t)) (Finite (rat_of_int i))
           = Inr (Finite (rat_of_int (16 * t + i)))"
proof -
  have "\<not> (num_lt (Finite (rat_of_int t)) 0 \<or> num_gt (Finite (rat_of_int t)) 15
      \<or> num_lt (Finite (rat_of_int i)) 0 \<or> num_gt (Finite (rat_of_int i)) 15)"
    using assms by simp
  moreover have "shift_left (Finite (rat_of_int t)) 4 OR ToInt32 (Finite (rat_of_int i))
      = 16 * t + i"
    using assms by (subst pack_nibbles) simp_all
  ultimately show ?thesis
    by (simp add: encodeTypeInfoStruct_def)
qed

section \<open>Properties of the integer encoding\<close>

lemma length_be_bytes [simp]: "length (be_bytes w n) = w"
  by (induction w arbitrary: n) simp_all

lemma be_uint_Nil [simp]: "be_uint [] = 0"
  by (simp add: be_uint_def)

lemma be_uint_snoc [simp]: "be_uint (bs @ [b]) = be_uint bs * 256 + uint b"
  by (simp add: be_uint_def)

lemma uint_byte_of_int: "uint (word_of_int n :: byte) = n mod 256"
  by (simp add: uint_word_of_int)

text \<open>Read back unsigned, the bytes give the integer modulo \<open>256 ^ w\<close>.\<close>

lemma be_uint_be_bytes: "be_uint (be_bytes w n) = n mod 256 ^ w"
proof (induction w arbitrary: n)
  case 0
  show ?case by simp
next
  case (Suc w)
  have "be_uint (be_bytes (Suc w) n) = (n div 256 mod 256 ^ w) * 256 + n mod 256"
    by (simp add: Suc.IH uint_byte_of_int)
  also have "\<dots> = n mod 256 ^ Suc w"
    by (simp add: zmod_zmult2_eq)
  finally show ?case .
qed

text \<open>The byte at position \<open>k\<close> carries the weight \<open>256 ^ (w - 1 - k)\<close>: big-endian.\<close>

lemma be_bytes_nth: "k < w \<Longrightarrow> be_bytes w n ! k = word_of_int (n div 256 ^ (w - 1 - k))"
proof (induction w arbitrary: n)
  case 0
  then show ?case by simp
next
  case (Suc w)
  show ?case
  proof (cases "k = w")
    case True
    then show ?thesis by (simp add: nth_append)
  next
    case False
    with Suc.prems have kw: "k < w" by simp
    then have "be_bytes (Suc w) n ! k = word_of_int (n div 256 div 256 ^ (w - 1 - k))"
      by (simp add: nth_append Suc.IH)
    also have "n div 256 div 256 ^ (w - 1 - k) = n div 256 ^ (Suc (w - 1 - k))"
      by (simp add: zdiv_zmult2_eq)
    also have "Suc (w - 1 - k) = Suc w - 1 - k"
      using kw by simp
    finally show ?thesis .
  qed
qed

lemma pow256: "(256::int) ^ w = 2 ^ (8 * w)"
  by (simp add: power_mult)

lemma be_sint_be_bytes:
  assumes n: "0 < n"
    and lo: "- (2 ^ (8 * n - 1)) \<le> v"
    and hi: "v < 2 ^ (8 * n - 1)"
  shows "be_sint (be_bytes n v) = v"
proof -
  define h :: int where "h = 2 ^ (8 * n - 1)"
  from n have "8 * n = Suc (8 * n - 1)"
    by simp
  then have full: "(2::int) ^ (8 * n) = 2 * h"
    unfolding h_def by (metis power_Suc)
  have dec: "be_sint (be_bytes n v) =
      (if h \<le> v mod (2 * h) then v mod (2 * h) - 2 * h else v mod (2 * h))"
  proof -
    have h': "2 ^ (8 * n - Suc 0) = h"
      by (simp add: h_def)
    show ?thesis
      by (simp add: be_sint_def be_uint_be_bytes pow256 Let_def full h')
  qed
  have lo': "- h \<le> v" and hi': "v < h"
    using lo hi by (simp_all add: h_def)
  show ?thesis
  proof (cases "0 \<le> v")
    case True
    with hi' have "v mod (2 * h) = v"
      by simp
    with hi' show ?thesis
      by (simp add: dec)
  next
    case False
    with lo' have "(v + 2 * h) mod (2 * h) = v + 2 * h"
      by (intro mod_pos_pos_trivial) simp_all
    then have "v mod (2 * h) = v + 2 * h"
      by simp
    with lo' show ?thesis
      by (simp add: dec)
  qed
qed

section \<open>Properties of calculateIntSize\<close>

lemma calculateIntSize_bigint:
  "calculateIntSize (JBigInt n) =
     (if \<bar>n\<bar> > 0x7FFFFFFFFFFFFFFF then Inl RangeError
      else if \<bar>n\<bar> \<le> 0x7F then Inr 1
      else if \<bar>n\<bar> \<le> 0x7FFF then Inr 2
      else if \<bar>n\<bar> \<le> 0x7FFFFFFF then Inr 4
      else Inr 8)"
  by (simp add: calculateIntSize_def Let_def abs_if)

lemma calculateIntSize_integer:
  "calculateIntSize (JNumber (Finite (rat_of_int n))) = calculateIntSize (JBigInt n)"
  by (simp add: calculateIntSize_def)

text \<open>The width returned always holds the integer.\<close>

lemma calculateIntSize_fits:
  assumes "calculateIntSize (JBigInt n) = Inr w"
  shows "w \<in> {1, 2, 4, 8} \<and> - (2 ^ (8 * nat w - 1)) < n \<and> n < 2 ^ (8 * nat w - 1)"
  using assms by (auto simp add: calculateIntSize_bigint split: if_splits)

text \<open>
  C9. At the width boundaries the function returns 1 for 127, 2 for 128, 2 for 32767 and
  4 for 32768.
\<close>

theorem calculateIntSize_boundaries:
  "calculateIntSize (JNumber (Finite 127)) = Inr 1
   \<and> calculateIntSize (JNumber (Finite 128)) = Inr 2
   \<and> calculateIntSize (JNumber (Finite 32767)) = Inr 2
   \<and> calculateIntSize (JNumber (Finite 32768)) = Inr 4"
  by (simp add: calculateIntSize_def)

text \<open>
  C4. The claim asks for the minimal two's-complement width on the whole signed 64-bit range
  and for a RangeError exactly outside it. The function compares the absolute value with
  the positive bounds, so the most negative value of each width is pushed to the next one:
  \<open>-128\<close> gets 2 bytes, \<open>-32768\<close> gets 4, \<open>-2147483648\<close> gets 8, and
  \<open>-2^63\<close>, which is inside the range, raises the RangeError.
\<close>

theorem calculateIntSize_most_negative:
  "calculateIntSize (JBigInt (- (2 ^ 63))) = Inl RangeError
   \<and> calculateIntSize (JNumber (Finite (- 128))) = Inr 2
   \<and> calculateIntSize (JNumber (Finite (- 32768))) = Inr 4
   \<and> calculateIntSize (JNumber (Finite (- 2147483648))) = Inr 8"
  by (simp add: calculateIntSize_def)

section \<open>Properties of encodeInt and decodeInt\<close>

text \<open>An integer below \<open>2 ^ 53\<close> in magnitude is a double.\<close>

lemma toFloat64_integer:
  assumes "\<bar>n\<bar> < 2 ^ 53"
  shows "toFloat64 (Finite (rat_of_int n)) = Finite (rat_of_int n)"
proof -
  have "\<bar>rat_of_int n\<bar> < rat_of_int (2 ^ 53)"
    using assms by (simp only: of_int_less_iff flip: of_int_abs)
  also have "\<dots> \<le> 2 powi (bias 11 + 1)"
    by (simp add: bias_def)
  finally have "ieee_round 53 11 (Finite (rat_of_int n)) = Finite (rat_of_int n)"
    using assms by (intro ieee_round_representable [of _ n 0]) (simp_all add: bias_def)
  then show ?thesis
    by (simp add: toFloat64_def)
qed

lemma ToIntegral_of_int [simp]: "ToIntegral (Finite (rat_of_int n)) = n"
  by simp

text \<open>An integer within the range of the width is written as its bytes.\<close>

lemma writeIntBE_integer:
  assumes "- (2 ^ (8 * w - 1)) \<le> v" and "v < 2 ^ (8 * w - 1)"
  shows "writeIntBE w (Finite (rat_of_int v)) = Inr (be_bytes w v)"
proof -
  have "\<not> (2 ^ (8 * w - 1) - 1 < rat_of_int v)"
  proof -
    from assms(2) have "v \<le> 2 ^ (8 * w - 1) - 1"
      by simp
    then have "rat_of_int v \<le> rat_of_int (2 ^ (8 * w - 1) - 1)"
      by (simp only: of_int_le_iff)
    then show ?thesis
      by simp
  qed
  moreover have "\<not> (rat_of_int v < - (2 ^ (8 * w - 1)))"
  proof -
    from assms(1) have "rat_of_int (- (2 ^ (8 * w - 1))) \<le> rat_of_int v"
      by (simp only: of_int_le_iff)
    then show ?thesis
      by simp
  qed
  ultimately show ?thesis
    by (simp add: writeIntBE_def)
qed

lemma readIntBE_be_bytes:
  assumes "0 < w" and "- (2 ^ (8 * w - 1)) \<le> v" and "v < 2 ^ (8 * w - 1)"
  shows "readIntBE w (be_bytes w v) = Inr v"
  using assms by (simp add: readIntBE_def be_sint_be_bytes)

lemma encodeInt_fits:
  assumes w: "w \<in> {1, 2, 4, 8}"
    and lo: "- (2 ^ (8 * nat w - 1)) \<le> v"
    and hi: "v < 2 ^ (8 * nat w - 1)"
  shows "encodeInt (Num (Finite (rat_of_int v))) w = Inr (be_bytes (nat w) v)"
    and "encodeInt (Big v) w = Inr (be_bytes (nat w) v)"
proof -
  have small: "w \<noteq> 8 \<Longrightarrow> toFloat64 (Finite (rat_of_int v)) = Finite (rat_of_int v)"
  proof -
    assume "w \<noteq> 8"
    with w lo hi have "- (2 ^ 31) \<le> v" and "v < 2 ^ 31"
      by auto
    then have "\<bar>v\<bar> < 2 ^ 53"
      by simp
    then show ?thesis
      by (rule toFloat64_integer)
  qed
  have wr: "w \<noteq> 8 \<Longrightarrow> writeIntBE (nat w) (Finite (rat_of_int v)) = Inr (be_bytes (nat w) v)"
    using lo hi by (intro writeIntBE_integer)
  have big: "w = 8 \<Longrightarrow> writeBigInt64BE v = Inr (be_bytes 8 v)"
    using lo hi by (simp add: writeBigInt64BE_def)
  show "encodeInt (Num (Finite (rat_of_int v))) w = Inr (be_bytes (nat w) v)"
    using w wr big by (auto simp add: encodeInt_def)
  show "encodeInt (Big v) w = Inr (be_bytes (nat w) v)"
    using w wr big small by (auto simp add: encodeInt_def)
qed

lemma decodeInt_be_bytes:
  assumes w: "w \<in> {1, 2, 4, 8}"
    and lo: "- (2 ^ (8 * nat w - 1)) \<le> v"
    and hi: "v < 2 ^ (8 * nat w - 1)"
  shows "decodeInt (be_bytes (nat w) v) w
           = Inr (if w = 8 then Big v else Num (Finite (rat_of_int v)))"
proof -
  from w have "0 < nat w"
    by auto
  then have "readIntBE (nat w) (be_bytes (nat w) v) = Inr v"
    using lo hi by (rule readIntBE_be_bytes)
  with w show ?thesis
    by (auto simp add: decodeInt_def)
qed

text \<open>
  C6. For every width \<open>w\<close> among 1, 2, 4 and 8 and every integer \<open>v\<close> that fits \<open>w\<close>
  bytes of two's complement, \<open>encodeInt\<close> succeeds on \<open>v\<close>, given as a number or as a
  bigint, and \<open>decodeInt\<close> returns \<open>v\<close> from its bytes: as a number for the widths 1,
  2 and 4, as a bigint for the width 8. The encoding has \<open>w\<close> bytes, is two's complement
  (read unsigned it is \<open>v\<close> modulo \<open>2 ^ (8 * w)\<close>) and big-endian (the byte at position
  \<open>k\<close> has the weight \<open>256 ^ (w - 1 - k)\<close>).
\<close>

theorem decodeInt_encodeInt:
  "w \<in> {1, 2, 4, 8} \<Longrightarrow> - (2 ^ (8 * nat w - 1)) \<le> v \<Longrightarrow> v < 2 ^ (8 * nat w - 1) \<Longrightarrow>
   encodeInt (Num (Finite (rat_of_int v))) w = Inr (be_bytes (nat w) v)
   \<and> encodeInt (Big v) w = Inr (be_bytes (nat w) v)
   \<and> decodeInt (be_bytes (nat w) v) w
       = Inr (if w = 8 then Big v else Num (Finite (rat_of_int v)))
   \<and> length (be_bytes (nat w) v) = nat w
   \<and> be_uint (be_bytes (nat w) v) = v mod 2 ^ (8 * nat w)
   \<and> (\<forall>k < nat w. be_bytes (nat w) v ! k = word_of_int (v div 256 ^ (nat w - 1 - k)))"
proof -
  assume w: "w \<in> {1, 2, 4, 8}"
    and lo: "- (2 ^ (8 * nat w - 1)) \<le> v"
    and hi: "v < 2 ^ (8 * nat w - 1)"
  note encodeInt_fits [OF w lo hi] decodeInt_be_bytes [OF w lo hi]
  moreover have "be_uint (be_bytes (nat w) v) = v mod 2 ^ (8 * nat w)"
    by (simp add: be_uint_be_bytes pow256)
  moreover have "\<forall>k < nat w. be_bytes (nat w) v ! k = word_of_int (v div 256 ^ (nat w - 1 - k))"
    by (simp add: be_bytes_nth)
  ultimately show ?thesis
    by simp
qed

theorem decodeInt_encodeInt_witness:
  "(2::int) \<in> {1, 2, 4, 8}
   \<and> - (2 ^ (8 * nat 2 - 1)) \<le> (- 2 :: int)
   \<and> (- 2 :: int) < 2 ^ (8 * nat 2 - 1)
   \<and> encodeInt (Num (Finite (- 2))) 2 = Inr [0xFF, 0xFE]
   \<and> decodeInt [0xFF, 0xFE] 2 = Inr (Num (Finite (- 2)))"
proof -
  have w: "(2::int) \<in> {1, 2, 4, 8}"
    by simp
  have lo: "- (2 ^ (8 * nat 2 - 1)) \<le> (- 2 :: int)"
    by simp
  have hi: "(- 2 :: int) < 2 ^ (8 * nat 2 - 1)"
    by simp
  have bytes: "be_bytes (nat 2) (- 2) = [0xFF, 0xFE]"
    by code_simp
  from decodeInt_encodeInt [OF w lo hi] bytes
  have "encodeInt (Num (Finite (- 2))) 2 = Inr [0xFF, 0xFE]
      \<and> decodeInt [0xFF, 0xFE] 2 = Inr (Num (Finite (- 2)))"
    by simp
  with w lo hi show ?thesis
    by blast
qed

section \<open>Properties of encodeType\<close>

lemma info_of_size_1: "info_of_size 1 = 0"
  by (simp add: info_of_size_def)

lemma info_of_size_2: "info_of_size 2 = 1"
  by (simp add: info_of_size_def)

lemma info_of_size_4: "info_of_size 4 = 2"
proof -
  have "3 / 2 \<le> sqrt 3"
    by (rule real_le_rsqrt) (simp add: power2_eq_square)
  moreover have "sqrt 3 < 5 / 2"
    by (rule real_less_lsqrt) (simp_all add: power2_eq_square)
  ultimately have "round (sqrt 3) = 2"
    unfolding round_def by (intro floor_unique) simp_all
  then show ?thesis
    by (simp add: info_of_size_def)
qed

lemma info_of_size_8: "info_of_size 8 = 3"
proof -
  have "5 / 2 \<le> sqrt 7"
    by (rule real_le_rsqrt) (simp add: power2_eq_square)
  moreover have "sqrt 7 < 7 / 2"
    by (rule real_less_lsqrt) (simp_all add: power2_eq_square)
  ultimately have "round (sqrt 7) = 3"
    unfolding round_def by (intro floor_unique) simp_all
  then show ?thesis
    by (simp add: info_of_size_def)
qed

lemma Number_isInteger_iff: "Number_isInteger (JNumber (Finite q)) = (q \<in> \<int>)"
  by (auto simp add: Ints_def intro: sym)

lemma encodeType_tag_real:
  assumes "\<not> Number_isInteger (JNumber x)"
  shows "encodeType ds (JNumber x) =
     Inr (if isFloatPrecision x then 0x22 # binary32_be x else 0x23 # binary64_be x)"
proof -
  have "encodeTypeInfoStruct (Finite 2) (Finite 2) = Inr (Finite 0x22)"
    and "encodeTypeInfoStruct (Finite 2) (Finite 3) = Inr (Finite 0x23)"
    using encodeTypeInfoStruct_nibbles [of 2 2] encodeTypeInfoStruct_nibbles [of 2 3]
    by simp_all
  moreover have "ToUint8 (Finite 0x22) = 0x22" and "ToUint8 (Finite 0x23) = 0x23"
    by (simp_all add: ToUint8_def)
  ultimately show ?thesis
    using assms by (simp add: encodeFloatStruct_def info_of_size_4 info_of_size_8)
qed

lemma isFloatPrecision_lossless:
  assumes "isFloatPrecision (Finite q)"
  shows "toFloat32 (Finite q) = Finite q"
  using assms by (simp add: isFloatPrecision_def strict_eq_toFloat32)

text \<open>
  C7. For a finite number that is not an integer, \<open>encodeType\<close> returns the tag byte
  followed by the IEEE-754 big-endian bytes of the number: tag \<open>0x22\<close> (high nibble 2, low
  nibble 2) and the four binary32 bytes when \<open>isFloatPrecision\<close> holds, in which case the
  conversion to binary32 is lossless, tag \<open>0x23\<close> (high nibble 2, low nibble 3) and the
  eight binary64 bytes otherwise.
\<close>

theorem encodeType_real:
  "q \<notin> \<int> \<Longrightarrow>
   encodeType ds (JNumber (Finite q)) =
     Inr (if isFloatPrecision (Finite q) then 0x22 # binary32_be (Finite q)
          else 0x23 # binary64_be (Finite q))
   \<and> length (binary32_be (Finite q)) = 4
   \<and> length (binary64_be (Finite q)) = 8
   \<and> (isFloatPrecision (Finite q) \<longrightarrow> toFloat32 (Finite q) = Finite q)"
proof -
  assume "q \<notin> \<int>"
  then have "\<not> Number_isInteger (JNumber (Finite q))"
    by (simp only: Number_isInteger_iff not_False_eq_True)
  then have "encodeType ds (JNumber (Finite q)) =
      Inr (if isFloatPrecision (Finite q) then 0x22 # binary32_be (Finite q)
           else 0x23 # binary64_be (Finite q))"
    by (rule encodeType_tag_real)
  moreover have "length (binary32_be (Finite q)) = 4"
    by (simp add: binary32_be_def)
  moreover have "length (binary64_be (Finite q)) = 8"
    by (simp add: binary64_be_def)
  moreover have "isFloatPrecision (Finite q) \<longrightarrow> toFloat32 (Finite q) = Finite q"
    by (simp add: isFloatPrecision_lossless)
  ultimately show ?thesis
    by blast
qed

theorem encodeType_real_witness:
  "(3 / 2 :: rat) \<notin> \<int>
   \<and> encodeType (\<lambda>t. []) (JNumber (Finite (3 / 2))) = Inr [0x22, 0x3F, 0xC0, 0x00, 0x00]
   \<and> (3602879701896397 / 36028797018963968 :: rat) \<notin> \<int>
   \<and> encodeType (\<lambda>t. []) (JNumber (Finite (3602879701896397 / 36028797018963968))) =
       Inr [0x23, 0x3F, 0xB9, 0x99, 0x99, 0x99, 0x99, 0x99, 0x9A]"
proof -
  have "\<not> Number_isInteger (JNumber (Finite (3 / 2)))"
    by code_simp
  then have a: "(3 / 2 :: rat) \<notin> \<int>"
    by (simp only: Number_isInteger_iff not_False_eq_True)
  have "\<not> Number_isInteger (JNumber (Finite (3602879701896397 / 36028797018963968)))"
    by code_simp
  then have b: "(3602879701896397 / 36028797018963968 :: rat) \<notin> \<int>"
    by (simp only: Number_isInteger_iff not_False_eq_True)
  have fa: "isFloatPrecision (Finite (3 / 2))"
    by code_simp
  have fb: "\<not> isFloatPrecision (Finite (3602879701896397 / 36028797018963968))"
    by code_simp
  have ea: "binary32_be (Finite (3 / 2)) = [0x3F, 0xC0, 0x00, 0x00]"
    by code_simp
  have eb: "binary64_be (Finite (3602879701896397 / 36028797018963968)) =
      [0x3F, 0xB9, 0x99, 0x99, 0x99, 0x99, 0x99, 0x9A]"
    by code_simp
  from encodeType_real [OF a, of "\<lambda>t. []"] fa ea
  have "encodeType (\<lambda>t. []) (JNumber (Finite (3 / 2))) = Inr [0x22, 0x3F, 0xC0, 0x00, 0x00]"
    by (simp only: if_True)
  moreover from encodeType_real [OF b, of "\<lambda>t. []"] fb eb
  have "encodeType (\<lambda>t. []) (JNumber (Finite (3602879701896397 / 36028797018963968))) =
      Inr [0x23, 0x3F, 0xB9, 0x99, 0x99, 0x99, 0x99, 0x99, 0x9A]"
    by (simp only: if_False)
  ultimately show ?thesis
    using a b by blast
qed

lemma calculateIntSize_not_unsupported: "calculateIntSize v \<noteq> Inl UnsupportedType"
  by (simp add: calculateIntSize_def Let_def)

lemma encodeTypeInfoStruct_not_unsupported: "encodeTypeInfoStruct t i \<noteq> Inl UnsupportedType"
  by (simp add: encodeTypeInfoStruct_def)

lemma encodeInt_not_unsupported: "encodeInt v sz \<noteq> Inl UnsupportedType"
proof -
  have "writeIntBE w x \<noteq> Inl UnsupportedType" for w x
    by (simp add: writeIntBE_def)
  moreover have "writeBigInt64BE n \<noteq> Inl UnsupportedType" for n
    by (simp add: writeBigInt64BE_def)
  moreover have "BigInt_number x \<noteq> Inl UnsupportedType" for x
    by (cases x) simp_all
  ultimately show ?thesis
    by (auto simp add: encodeInt_def split: numeric.splits sum.splits)
qed

lemma encodeFloatStruct_not_unsupported: "encodeFloatStruct x sz \<noteq> Inl UnsupportedType"
  by (simp add: encodeFloatStruct_def)

lemma encodeType_number_not_unsupported:
  "encodeType ds (JNumber x) \<noteq> Inl UnsupportedType"
  using calculateIntSize_not_unsupported [of "JNumber x"]
    encodeTypeInfoStruct_not_unsupported encodeInt_not_unsupported
    encodeFloatStruct_not_unsupported
  by (auto simp add: Let_def split: sum.splits)

text \<open>
  C10. For a Buffer, a string (ASCII or not), an Array, a Set and a plain object,
  \<open>encodeType\<close> returns the empty buffer; and it raises the \<open>Unsupported type\<close> error
  exactly on the values that no branch recognises: \<open>undefined\<close>, a bigint, a symbol and a
  function.
\<close>

theorem encodeType_unencoded_kinds:
  "encodeType ds (JBuffer b) = Inr []
   \<and> encodeType ds (JString s) = Inr []
   \<and> encodeType ds (JArray xs) = Inr []
   \<and> encodeType ds (JSet xs) = Inr []
   \<and> encodeType ds (JObject ps) = Inr []
   \<and> ((encodeType ds v = Inl UnsupportedType)
        = (v = JUndefined \<or> is_bigint v \<or> v = JSymbol \<or> v = JFunction))"
proof -
  have "(encodeType ds v = Inl UnsupportedType)
        = (v = JUndefined \<or> is_bigint v \<or> v = JSymbol \<or> v = JFunction)"
  proof (cases v)
    case (JNumber x)
    then show ?thesis
      using encodeType_number_not_unsupported by simp
  next
    case (JBool c)
    then show ?thesis
      by (cases c) simp_all
  qed simp_all
  then show ?thesis
    by simp
qed

section \<open>Properties of encodeBinary\<close>

text \<open>
  C1. The claim is that decoding the encoding of a value gives the value back.
  \<open>encodeBinary\<close> returns the empty buffer whatever it is given, so no decoder at all
  recovers both \<open>null\<close> and \<open>true\<close> from its output.
\<close>

theorem encodeBinary_no_round_trip:
  "encodeBinary v = []
   \<and> \<not> (decode (encodeBinary JNull) = Inr JNull
        \<and> decode (encodeBinary (JBool True)) = Inr (JBool True))"
  by (auto simp add: encodeBinary_def)

text \<open>
  C2. The claim is that the result is a complete file image: the 8-byte header, the
  objects, the offset table and the 32-byte trailer. The buffer that \<open>encodeBinary\<close>
  returns has length 0: it does not start with the header and is too short for a header
  and a trailer.
\<close>

theorem encodeBinary_no_file_image:
  "length (encodeBinary v) = 0
   \<and> take 8 (encodeBinary v) \<noteq> bplist_header
   \<and> \<not> 8 + 32 \<le> length (encodeBinary v)"
  by (simp add: encodeBinary_def bplist_header_def)

section \<open>Properties of the Date helpers\<close>

text \<open>\<open>encodeDateStruct\<close> never throws: the tag \<open>0x33\<close> and the eight bytes of the delta.\<close>

lemma encodeDateStruct_bytes:
  "encodeDateStruct date =
     Inr (0x33 # binary64_be (num_over (num_sub date (Finite (rat_of_int REFERENCE_DATE))) 1000))"
proof -
  have "encodeTypeInfoStruct (Finite 3) (Finite 3) = Inr (Finite 0x33)"
    using encodeTypeInfoStruct_nibbles [of 3 3] by simp
  moreover have "writeIntBE 1 (Finite 0x33) = Inr [0x33]"
    using writeIntBE_integer [of 1 51] by simp
  ultimately show ?thesis
    by (simp add: encodeDateStruct_def)
qed

lemma encodeDateStruct_length: "\<exists>b. encodeDateStruct date = Inr b \<and> length b = 9"
  by (simp add: encodeDateStruct_bytes binary64_be_def)

text \<open>
  C3. The claim is that decoding the encoding of a Date gives the same instant, that the
  payload is the delta from 2001-01-01T00:00:00Z in seconds as a big-endian double, and
  that the delta of the reference date is 0.0. The payload is as claimed, but
  \<open>decodeDateStruct\<close> hands the seconds to \<open>setSeconds\<close>, which drops their fraction:
  the date half a second after the reference date is encoded with the delta 0.5 and comes
  back as the reference date, in UTC and an hour east of it alike.
\<close>

theorem decodeDateStruct_drops_milliseconds:
  "encodeDateStruct (Finite 978307200500) = Inr [0x33, 0x3F, 0xE0, 0, 0, 0, 0, 0, 0]
   \<and> decodeDateStruct (\<lambda>t isUTC. 0) [0x33, 0x3F, 0xE0, 0, 0, 0, 0, 0, 0] 0
       = Inr (Finite 978307200000)
   \<and> decodeDateStruct (\<lambda>t isUTC. 3600000) [0x33, 0x3F, 0xE0, 0, 0, 0, 0, 0, 0] 0
       = Inr (Finite 978307200000)"
  by code_simp

text \<open>The reference date has the delta 0.0 and comes back; so does a date on a whole second.\<close>

lemma encodeDateStruct_epoch:
  "encodeDateStruct (Finite 978307200000) = Inr [0x33, 0, 0, 0, 0, 0, 0, 0, 0]
   \<and> decodeDateStruct (\<lambda>t isUTC. 0) [0x33, 0, 0, 0, 0, 0, 0, 0, 0] 0
       = Inr (Finite 978307200000)"
  by code_simp

lemma encodeDateStruct_whole_second:
  "encodeDateStruct (Finite 1733810154000) = Inr [0x33, 0x41, 0xC6, 0x84, 0x07, 0xB5, 0, 0, 0]
   \<and> decodeDateStruct (\<lambda>t isUTC. 0) [0x33, 0x41, 0xC6, 0x84, 0x07, 0xB5, 0, 0, 0] 0
       = Inr (Finite 1733810154000)"
  by code_simp

section \<open>Further properties of encodeType\<close>

text \<open>The integer branch: tag \<open>0x10 + info\<close>, then the bytes of \<open>encodeInt\<close>.\<close>

lemma encodeType_integer:
  assumes "calculateIntSize (JBigInt n) = Inr w"
  shows "encodeType ds (JNumber (Finite (rat_of_int n))) =
           Inr (word_of_int (16 + info_of_size w) # be_bytes (nat w) n)"
proof -
  from calculateIntSize_fits [OF assms]
  have w: "w \<in> {1, 2, 4, 8}" and lo: "- (2 ^ (8 * nat w - 1)) \<le> n"
    and hi: "n < 2 ^ (8 * nat w - 1)"
    by simp_all
  from w have info: "0 \<le> info_of_size w" "info_of_size w \<le> 15"
    by (auto simp add: info_of_size_1 info_of_size_2 info_of_size_4 info_of_size_8)
  have "encodeTypeInfoStruct (Finite 1) (Finite (rat_of_int (info_of_size w)))
      = Inr (Finite (rat_of_int (16 + info_of_size w)))"
    using encodeTypeInfoStruct_nibbles [of 1 "info_of_size w"] info by simp
  moreover have "encodeInt (Num (Finite (rat_of_int n))) w = Inr (be_bytes (nat w) n)"
    by (rule encodeInt_fits [OF w lo hi])
  ultimately show ?thesis
    using assms by (simp add: calculateIntSize_integer ToUint8_def)
qed

text \<open>
  The encodings the model computes are the known ones: 0.1 is the double
  \<open>0x3FB999999999999A\<close> and the single \<open>0x3DCCCCCD\<close>, the least subnormal single is
  \<open>0x00000001\<close>, and \<open>2 ^ 128\<close> overflows to the infinity \<open>0x7F800000\<close>.
\<close>

lemma toFloat64_one_tenth:
  "toFloat64 (Finite (1 / 10)) = Finite (3602879701896397 / 36028797018963968)"
  by code_simp

lemma binary32_be_examples:
  "binary32_be (Finite (1 / 10)) = [0x3D, 0xCC, 0xCC, 0xCD]
   \<and> binary32_be (Finite (- 5 / 2)) = [0xC0, 0x20, 0x00, 0x00]
   \<and> binary32_be (Finite (2 powi (- 149))) = [0x00, 0x00, 0x00, 0x01]
   \<and> binary32_be (Finite (2 ^ 128)) = [0x7F, 0x80, 0x00, 0x00]
   \<and> binary32_be NegZero = [0x80, 0x00, 0x00, 0x00]
   \<and> binary32_be NaN = [0x7F, 0xC0, 0x00, 0x00]"
  by code_simp

lemma binary64_be_examples:
  "binary64_be (Finite 1) = [0x3F, 0xF0, 0x00, 0x00, 0x00, 0x00, 0x00, 0x00]
   \<and> binary64_be (Finite (11 / 5)) = [0x40, 0x01, 0x99, 0x99, 0x99, 0x99, 0x99, 0x9A]
   \<and> binary64_be NaN = [0x7F, 0xF8, 0x00, 0x00, 0x00, 0x00, 0x00, 0x00]
   \<and> binary64_be NegInf = [0xFF, 0xF0, 0x00, 0x00, 0x00, 0x00, 0x00, 0x00]"
  by code_simp

text \<open>NaN takes the eight-byte form.\<close>

lemma encodeType_NaN:
  "encodeType ds (JNumber NaN) = Inr [0x23, 0x7F, 0xF8, 0, 0, 0, 0, 0, 0]"
proof -
  have "\<not> Number_isInteger (JNumber NaN)"
    by simp
  from encodeType_tag_real [OF this, of ds] show ?thesis
    using binary64_be_examples by (simp add: isFloatPrecision_def strict_eq_def)
qed

end
